theory Spec2Isabelle
  imports Main
begin

section \<open>The useAwait hook of src/index.ts as a state machine\<close>

text \<open>
  The hook keeps three pieces of mutable state across renders: the map \<open>statuses\<close>
  (keyed by the task function's reference), the ref \<open>oldEffectRef\<close> and the React
  state cell \<open>result\<close>. Every handler of the source (\<open>updateResult\<close>, \<open>abort\<close>,
  \<open>onfulfilled\<close>, \<open>onrejected\<close>, \<open>tick\<close>, the block that runs when the dependencies
  change) becomes a function on a record of that state.

  A task function is identified by its reference, modelled as a natural number: two
  submissions that pass the same function have the same number. The closures that a
  render with changed dependencies creates (\<open>abort\<close>, \<open>tick\<close>, the \<open>AbortController\<close>)
  are values that carry what they captured: the number of the submission that created
  them and the task of that render. \<open>setResult\<close> is taken to store its argument in the
  state cell at once; scheduling of re-renders is React's business and is not modelled.
\<close>

type_synonym task = nat
type_synonym val = int

text \<open>What a task's promise may reject with: one of the two module-private symbols, or
  anything else (a user error, named by a number).\<close>

datatype error = symbolInvalidate | symbolAborted | UserError nat

text \<open>\<open>useAwait.Status\<close>: the four strings.\<close>

datatype status = Fulfilled | Rejected | Running | Aborted

datatype abort_fn = AbortFn nat task

datatype tick_fn = TickFn nat task

text \<open>\<open>useAwait.Scheduler\<close>: the tick closure and the signal of the submission's
  \<open>AbortController\<close>, named by the submission's number.\<close>

datatype scheduler = Scheduler tick_fn nat

text \<open>\<open>useAwait.Result\<close>.\<close>

datatype result =
    R_fulfilled val
  | R_rejected error
  | R_running abort_fn
  | R_aborted

fun status_of :: "result \<Rightarrow> status" where
  "status_of (R_fulfilled v) = Fulfilled"
| "status_of (R_rejected e) = Rejected"
| "status_of (R_running a) = Running"
| "status_of R_aborted = Aborted"

text \<open>What the hook does that an observer can see, in the order it happens: a call of
  \<open>setResult\<close>, and the call \<open>task(scheduler)\<close>.\<close>

datatype effect = SetResult result | TaskStarted task scheduler

record hook =
  statuses :: "task \<rightharpoonup> status"
  oldEffectRef :: "task option"
  result :: result
  aborted_signals :: "nat set"
  generation :: nat
  effects :: "effect list"

definition setResult :: "result \<Rightarrow> hook \<Rightarrow> hook" where
  "setResult r s = s\<lparr>result := r, effects := effects s @ [SetResult r]\<rparr>"

text \<open>\<open>updateResult\<close> (lines 130-133): \<open>statuses.set(task, result.status)\<close>, then
  \<open>setResult(result)\<close>. The task is the one the closure captured.\<close>

definition updateResult :: "task \<Rightarrow> result \<Rightarrow> hook \<Rightarrow> hook" where
  "updateResult t r s = setResult r (s\<lparr>statuses := (statuses s)(t \<mapsto> status_of r)\<rparr>)"

text \<open>\<open>abort\<close> (lines 119-124).\<close>

fun abort :: "abort_fn \<Rightarrow> hook \<Rightarrow> hook" where
  "abort (AbortFn n t) s =
     (if statuses s t = Some Running
      then (let s' = updateResult t R_aborted s
            in s'\<lparr>aborted_signals := insert n (aborted_signals s')\<rparr>)
      else s)"

text \<open>\<open>onfulfilled\<close> (lines 137-146): the switch on \<open>statuses.get(task)\<close>.\<close>

definition onfulfilled :: "task \<Rightarrow> val \<Rightarrow> hook \<Rightarrow> hook" where
  "onfulfilled t v s =
     (case statuses s t of
        None \<Rightarrow> s
      | Some Aborted \<Rightarrow> s
      | Some _ \<Rightarrow> updateResult t (R_fulfilled v) s)"

text \<open>\<open>onrejected\<close> (lines 147-156): the switch on \<open>error\<close> alone.\<close>

definition onrejected :: "task \<Rightarrow> error \<Rightarrow> hook \<Rightarrow> hook" where
  "onrejected t e s =
     (case e of
        symbolInvalidate \<Rightarrow> s
      | symbolAborted \<Rightarrow> s
      | _ \<Rightarrow> updateResult t (R_rejected e) s)"

text \<open>\<open>tick\<close> (lines 158-170). The executor of \<open>new Promise\<close> runs inside the call, so the
  promise is settled when \<open>tick()\<close> returns: \<open>Inl\<close> is what it rejected with, \<open>Inr\<close> what
  it resolved with, which is the closure \<open>tick\<close> itself.\<close>

fun tick :: "tick_fn \<Rightarrow> hook \<Rightarrow> error + tick_fn" where
  "tick (TickFn n t) s =
     (case statuses s t of
        None \<Rightarrow> Inl symbolInvalidate
      | Some Aborted \<Rightarrow> Inl symbolAborted
      | Some _ \<Rightarrow> Inr (TickFn n t))"

text \<open>The block that runs when the dependencies changed, lines 174-178: the running
  result, the deletion of the old task's entry, the new value of the ref.\<close>

definition before_start :: "task \<Rightarrow> hook \<Rightarrow> hook" where
  "before_start t s =
     (let s1 = updateResult t (R_running (AbortFn (generation s) t)) s;
          s2 = (case oldEffectRef s1 of
                  None \<Rightarrow> s1
                | Some old \<Rightarrow> s1\<lparr>statuses := (statuses s1)(old := None)\<rparr>)
      in s2\<lparr>oldEffectRef := Some t\<rparr>)"

text \<open>Line 180, \<open>task(scheduler)\<close>: the task is called with the tick closure and the
  signal of this submission. The next render with changed dependencies creates closures
  with the next number.\<close>

definition start_task :: "task \<Rightarrow> hook \<Rightarrow> hook" where
  "start_task t s =
     s\<lparr>effects := effects s @
          [TaskStarted t (Scheduler (TickFn (generation s) t) (generation s))],
       generation := Suc (generation s)\<rparr>"

definition submission :: "task \<Rightarrow> hook \<Rightarrow> hook" where
  "submission t s = start_task t (before_start t s)"

text \<open>The first render up to line 129: an empty map, an empty ref, and the initial value
  of \<open>useState\<close>, which is the running result with the first render's \<open>abort\<close>.\<close>

definition initial :: "task \<Rightarrow> hook" where
  "initial t =
     \<lparr>statuses = Map.empty, oldEffectRef = None, result = R_running (AbortFn 0 t),
      aborted_signals = {}, generation = 0, effects = []\<rparr>"

definition mount :: "task \<Rightarrow> hook" where
  "mount t = submission t (initial t)"

text \<open>What can happen to a mounted hook: the dependencies change and a task is submitted,
  somebody calls an abort closure, a task's promise fulfills or rejects.\<close>

datatype event =
    Submit task
  | CallAbort abort_fn
  | Fulfill task val
  | Reject task error

fun step :: "event \<Rightarrow> hook \<Rightarrow> hook" where
  "step (Submit t) s = submission t s"
| "step (CallAbort a) s = abort a s"
| "step (Fulfill t v) s = onfulfilled t v s"
| "step (Reject t e) s = onrejected t e s"

fun run :: "event list \<Rightarrow> hook \<Rightarrow> hook" where
  "run [] s = s"
| "run (ev # evs) s = run evs (step ev s)"

text \<open>A result that does not carry one of the two internal symbols as its error.\<close>

fun sentinel_free :: "result \<Rightarrow> bool" where
  "sentinel_free (R_rejected e) = (e \<noteq> symbolInvalidate \<and> e \<noteq> symbolAborted)"
| "sentinel_free _ = True"


section \<open>Basic facts\<close>

lemma statuses_updateResult:
  "statuses (updateResult t r s) = (statuses s)(t \<mapsto> status_of r)"
  by (simp add: updateResult_def setResult_def)

lemma result_updateResult: "result (updateResult t r s) = r"
  by (simp add: updateResult_def setResult_def)

lemma statuses_submission:
  "statuses (submission t s) =
     (case oldEffectRef s of
        None \<Rightarrow> (statuses s)(t \<mapsto> Running)
      | Some old \<Rightarrow> ((statuses s)(t \<mapsto> Running))(old := None))"
  by (simp add: submission_def start_task_def before_start_def updateResult_def
      setResult_def Let_def split: option.splits)

lemma result_submission:
  "result (submission t s) = R_running (AbortFn (generation s) t)"
  by (simp add: submission_def start_task_def before_start_def updateResult_def
      setResult_def Let_def split: option.splits)

lemma oldEffectRef_submission: "oldEffectRef (submission t s) = Some t"
  by (simp add: submission_def start_task_def before_start_def Let_def)

lemma mount_simps:
  "statuses (mount t) = [t \<mapsto> Running]"
  "oldEffectRef (mount t) = Some t"
  "result (mount t) = R_running (AbortFn 0 t)"
  "generation (mount t) = Suc 0"
  by (simp_all add: mount_def initial_def statuses_submission result_submission
      oldEffectRef_submission)
    (simp add: submission_def start_task_def before_start_def updateResult_def
      setResult_def Let_def)

section \<open>What is discarded\<close>

text \<open>A fulfillment that arrives after another task was submitted finds no entry for its
  own task and changes nothing.\<close>

lemma superseded_fulfillment_discarded:
  "oldEffectRef s = Some t \<Longrightarrow> t' \<noteq> t \<Longrightarrow>
     onfulfilled t v (submission t' s) = submission t' s"
  by (simp add: onfulfilled_def statuses_submission)

text \<open>A fulfillment that arrives after \<open>abort\<close> changes nothing either.\<close>

lemma aborted_fulfillment_discarded:
  "statuses s t = Some Running \<Longrightarrow>
     onfulfilled t v (abort (AbortFn n t) s) = abort (AbortFn n t) s"
  by (simp add: onfulfilled_def statuses_updateResult Let_def)

text \<open>When the submitted function is the one the ref already holds, line 177 deletes the
  entry that line 175 has just written.\<close>

lemma same_task_self_invalidated:
  "oldEffectRef s = Some t \<Longrightarrow>
     statuses (submission t s) t = None
     \<and> tick (TickFn n t) (submission t s) = Inl symbolInvalidate
     \<and> onfulfilled t v (submission t s) = submission t s
     \<and> abort (AbortFn n t) (submission t s) = submission t s"
  by (simp add: onfulfilled_def statuses_submission)

section \<open>Invariants of executions\<close>

text \<open>Only a submission of the task \<open>t\<close> itself can make the entry of \<open>t\<close> running.\<close>

lemma not_running_step:
  "statuses s t \<noteq> Some Running \<Longrightarrow> ev \<noteq> Submit t \<Longrightarrow>
     statuses (step ev s) t \<noteq> Some Running"
proof (cases ev)
  case (Submit t')
  assume "statuses s t \<noteq> Some Running" "ev \<noteq> Submit t"
  with Submit show ?thesis
    by (auto simp: statuses_submission split: option.splits)
next
  case (CallAbort a)
  assume "statuses s t \<noteq> Some Running"
  with CallAbort show ?thesis
    by (cases a) (auto simp: statuses_updateResult Let_def)
next
  case (Fulfill t' v)
  assume "statuses s t \<noteq> Some Running"
  with Fulfill show ?thesis
    by (auto simp: onfulfilled_def statuses_updateResult
        split: option.splits status.splits)
next
  case (Reject t' e)
  assume "statuses s t \<noteq> Some Running"
  with Reject show ?thesis
    by (auto simp: onrejected_def statuses_updateResult split: error.splits)
qed

lemma not_running_run:
  "statuses s t \<noteq> Some Running \<Longrightarrow> \<forall>ev\<in>set evs. ev \<noteq> Submit t \<Longrightarrow>
     statuses (run evs s) t \<noteq> Some Running"
proof (induction evs arbitrary: s)
  case Nil
  then show ?case by simp
next
  case (Cons ev evs)
  from Cons.prems have "statuses (step ev s) t \<noteq> Some Running"
    by (simp add: not_running_step)
  with Cons show ?case by simp
qed

lemma sentinel_free_step:
  "sentinel_free (result s) \<Longrightarrow> sentinel_free (result (step ev s))"
proof (cases ev)
  case (Submit t)
  then show ?thesis by (simp add: result_submission)
next
  case (CallAbort a)
  assume "sentinel_free (result s)"
  with CallAbort show ?thesis
    by (cases a) (simp add: result_updateResult Let_def)
next
  case (Fulfill t v)
  assume "sentinel_free (result s)"
  with Fulfill show ?thesis
    by (simp add: onfulfilled_def result_updateResult
        split: option.splits status.splits)
next
  case (Reject t e)
  assume "sentinel_free (result s)"
  with Reject show ?thesis
    by (cases e) (simp_all add: onrejected_def result_updateResult)
qed

lemma sentinel_free_run:
  "sentinel_free (result s) \<Longrightarrow> sentinel_free (result (run evs s))"
  by (induction evs arbitrary: s) (simp_all add: sentinel_free_step)



section \<open>Properties of the specification\<close>

subsection \<open>C1: a superseded generation does not change the result\<close>

text \<open>C1. When a generation is superseded by a new submission before it settles, its later
  settlement, a value or a user error, must leave the observed result as it is. The
  fulfillment does (\<open>superseded_fulfillment_discarded\<close>), because \<open>onfulfilled\<close> looks
  the task up in \<open>statuses\<close>. \<open>onrejected\<close> looks only at the error: task 1 is mounted,
  task 2 is submitted, the result reads running with the second submission's \<open>abort\<close> and
  task 1 has no entry; then the promise of task 1 rejects with a user error, and the
  observed result is that rejection.\<close>

theorem superseded_rejection_changes_result:
  "result (run [Submit 2] (mount 1)) = R_running (AbortFn 1 2)
   \<and> statuses (run [Submit 2] (mount 1)) 1 = None
   \<and> result (run [Submit 2, Reject 1 (UserError 7)] (mount 1)) = R_rejected (UserError 7)"
  by (simp add: mount_simps statuses_submission result_submission onrejected_def
      result_updateResult)

subsection \<open>C2: a terminal status stays until the next submission\<close>

text \<open>C2. Within one generation the status moves from running to fulfilled, rejected or
  aborted and then stays; after \<open>abort\<close> it stays aborted whether the task later
  fulfills or rejects. A later fulfillment is dropped (\<open>aborted_fulfillment_discarded\<close>).
  A later rejection with a user error is not: task 1 is mounted and aborted, the status
  reads aborted; its promise rejects with a user error, and the status reads rejected,
  with no submission in between.\<close>

theorem rejection_after_abort_changes_status:
  "status_of (result (run [CallAbort (AbortFn 0 1)] (mount 1))) = Aborted
   \<and> status_of (result (run [CallAbort (AbortFn 0 1), Reject 1 (UserError 7)] (mount 1)))
       = Rejected"
  by (simp add: mount_simps onrejected_def result_updateResult Let_def)

subsection \<open>C3: what the tracker holds after a settlement\<close>

text \<open>C3, as stated: the tracker maps an identity only to running or aborted, and a delivered
  settlement removes the entry, so that the identity reads as absent. In the source a
  delivered settlement goes through \<open>updateResult\<close>, which writes the settled status
  into the map: after the fulfillment of the mounted task 1 its entry is fulfilled, not
  absent.\<close>

theorem settled_entry_kept_counterexample:
  "statuses (run [Fulfill 1 5] (mount 1)) 1 = Some Fulfilled
   \<and> statuses (run [Fulfill 1 5] (mount 1)) 1 \<noteq> None"
  by (simp add: mount_simps onfulfilled_def statuses_updateResult)

text \<open>C3, amended: when the settlement of a generation whose tracked status is running is
  delivered, its entry is overwritten with fulfilled (for a value) or rejected (for a user
  error) and the result shows the settlement; the entry is not removed. An entry
  disappears from the tracker only in a submission, and only the entry of the task that
  \<open>oldEffectRef\<close> held.\<close>

theorem settlement_recorded_in_tracker:
  "(statuses s t = Some Running \<longrightarrow>
      statuses (onfulfilled t v s) t = Some Fulfilled
      \<and> result (onfulfilled t v s) = R_fulfilled v
      \<and> statuses (onrejected t (UserError u) s) t = Some Rejected
      \<and> result (onrejected t (UserError u) s) = R_rejected (UserError u))
   \<and> (statuses s k \<noteq> None \<and> statuses (step ev s) k = None \<longrightarrow>
        (\<exists>t'. ev = Submit t') \<and> oldEffectRef s = Some k)"
proof -
  have "(\<exists>t'. ev = Submit t') \<and> oldEffectRef s = Some k"
    if "statuses s k \<noteq> None" and "statuses (step ev s) k = None"
  proof (cases ev)
    case (Submit t')
    with that show ?thesis
      by (auto simp: statuses_submission split: option.splits if_splits)
  next
    case (CallAbort a)
    with that show ?thesis
      by (cases a) (auto simp: statuses_updateResult Let_def split: if_splits)
  next
    case (Fulfill t' w)
    with that show ?thesis
      by (auto simp: onfulfilled_def statuses_updateResult
          split: option.splits status.splits if_splits)
  next
    case (Reject t' e)
    with that show ?thesis
      by (auto simp: onrejected_def statuses_updateResult split: error.splits if_splits)
  qed
  moreover have "statuses s t = Some Running \<longrightarrow>
      statuses (onfulfilled t v s) t = Some Fulfilled
      \<and> result (onfulfilled t v s) = R_fulfilled v
      \<and> statuses (onrejected t (UserError u) s) t = Some Rejected
      \<and> result (onrejected t (UserError u) s) = R_rejected (UserError u)"
    by (simp add: onfulfilled_def onrejected_def statuses_updateResult result_updateResult)
  ultimately show ?thesis
    by blast
qed

text \<open>The amended C3 at the mounted task 1: it settles either way, and the submission of
  task 2 removes its entry.\<close>

theorem settlement_recorded_in_tracker_witness:
  "statuses (mount 1) 1 = Some Running
   \<and> statuses (onfulfilled 1 5 (mount 1)) 1 = Some Fulfilled
   \<and> result (onfulfilled 1 5 (mount 1)) = R_fulfilled 5
   \<and> statuses (onrejected 1 (UserError 7) (mount 1)) 1 = Some Rejected
   \<and> result (onrejected 1 (UserError 7) (mount 1)) = R_rejected (UserError 7)
   \<and> statuses (mount 1) 1 \<noteq> None
   \<and> statuses (step (Submit 2) (mount 1)) 1 = None
   \<and> oldEffectRef (mount 1) = Some 1"
  using settlement_recorded_in_tracker [of "mount 1" 1 5 7 1 "Submit 2"]
  by (simp add: mount_simps statuses_submission)

subsection \<open>C4: the decision of a yield point\<close>




subsection \<open>C5: abort acts once, and only while running\<close>

text \<open>C5. When the tracked status of its task is running, \<open>abort\<close> sets the result to
  aborted, marks the entry aborted and aborts the controller of its submission, and
  changes nothing else. When the tracked status is anything else (fulfilled, rejected,
  aborted, or no entry), it returns the state as it was. Calling it twice is the same as
  calling it once.\<close>

theorem abort_only_while_running:
  "(statuses s t = Some Running \<longrightarrow>
      abort (AbortFn n t) s =
        s\<lparr>statuses := (statuses s)(t \<mapsto> Aborted), result := R_aborted,
          aborted_signals := insert n (aborted_signals s),
          effects := effects s @ [SetResult R_aborted]\<rparr>)
   \<and> (statuses s t \<noteq> Some Running \<longrightarrow> abort (AbortFn n t) s = s)
   \<and> abort (AbortFn n t) (abort (AbortFn n t) s) = abort (AbortFn n t) s"
  by (simp add: updateResult_def setResult_def Let_def)

text \<open>C5 at the mounted task 1: aborted while running, and a no-op after its
  fulfillment.\<close>

theorem abort_only_while_running_witness:
  "statuses (mount 1) 1 = Some Running
   \<and> result (abort (AbortFn 0 1) (mount 1)) = R_aborted
   \<and> statuses (abort (AbortFn 0 1) (mount 1)) 1 = Some Aborted
   \<and> 0 \<in> aborted_signals (abort (AbortFn 0 1) (mount 1))
   \<and> statuses (run [Fulfill 1 5] (mount 1)) 1 \<noteq> Some Running
   \<and> abort (AbortFn 0 1) (run [Fulfill 1 5] (mount 1)) = run [Fulfill 1 5] (mount 1)"
  using abort_only_while_running [of "mount 1" 1 0]
    abort_only_while_running [of "run [Fulfill 1 5] (mount 1)" 1 0]
  by (simp add: mount_simps onfulfilled_def statuses_updateResult)

subsection \<open>C6: running is emitted before the task starts\<close>

text \<open>C6. Every submission, from any state, first emits the running result that carries the
  submission's \<open>abort\<close> and only then calls the task: these are the two effects it adds,
  in this order, and the state in which the task is called reads running. The first
  render has the running result from \<open>useState\<close> already, and mounting emits it again
  before the first task is called.\<close>

theorem running_emitted_before_task_starts:
  "effects (submission t s) =
     effects s @ [SetResult (R_running (AbortFn (generation s) t)),
                  TaskStarted t (Scheduler (TickFn (generation s) t) (generation s))]
   \<and> result (before_start t s) = R_running (AbortFn (generation s) t)
   \<and> effects (before_start t s) = effects s @ [SetResult (R_running (AbortFn (generation s) t))]
   \<and> result (submission t s) = R_running (AbortFn (generation s) t)
   \<and> result (initial t) = R_running (AbortFn 0 t)
   \<and> effects (mount t) =
       [SetResult (R_running (AbortFn 0 t)), TaskStarted t (Scheduler (TickFn 0 t) 0)]"
  by (simp add: mount_def initial_def submission_def start_task_def before_start_def
      updateResult_def setResult_def Let_def split: option.splits)

subsection \<open>C7: the internal symbols never reach the consumer\<close>

text \<open>C7. After any sequence of submissions, abort calls, fulfillments and rejections on a
  mounted hook, the observed result is not a rejection with one of the two internal
  symbols; a rejection that carries one of them leaves the state untouched; and the
  observed status is one of fulfilled, rejected, running, aborted.\<close>

theorem sentinels_never_surface:
  "result (run evs (mount t)) \<noteq> R_rejected symbolInvalidate
   \<and> result (run evs (mount t)) \<noteq> R_rejected symbolAborted
   \<and> onrejected t' symbolInvalidate s = s
   \<and> onrejected t' symbolAborted s = s
   \<and> status_of (result (run evs (mount t))) \<in> {Fulfilled, Rejected, Running, Aborted}"
proof -
  have "sentinel_free (result (mount t))"
    by (simp add: mount_simps)
  then have "sentinel_free (result (run evs (mount t)))"
    by (rule sentinel_free_run)
  then have "result (run evs (mount t)) \<noteq> R_rejected symbolInvalidate"
    and "result (run evs (mount t)) \<noteq> R_rejected symbolAborted"
    by auto
  moreover have "status_of (result (run evs (mount t))) \<in> {Fulfilled, Rejected, Running, Aborted}"
    by (cases "status_of (result (run evs (mount t)))") simp_all
  ultimately show ?thesis
    by (simp add: onrejected_def)
qed

subsection \<open>C8: what a successful yield point returns\<close>

text \<open>C8, as stated: while the tracked status is running, a call of the yield point returns a
  new yield-point function, not the original one. The source resolves with \<open>tick\<close>, the
  closure that was called: on the mounted, running task 1 the call of the first
  submission's closure returns that same closure.\<close>

theorem tick_returns_itself_counterexample:
  "statuses (mount 1) 1 = Some Running
   \<and> tick (TickFn 0 1) (mount 1) = Inr (TickFn 0 1)"
  by (simp add: mount_simps)

text \<open>C8, amended: while the tracked status of its task is running, a call of the yield point
  resolves with the very closure that was called. The decision is still made per call,
  from the tracker: the same closure, called after an abort of its task, rejects with the
  abort symbol.\<close>

theorem tick_resolves_with_itself:
  "statuses s t = Some Running \<Longrightarrow>
     tick (TickFn n t) s = Inr (TickFn n t)
     \<and> tick (TickFn n t) (abort (AbortFn m t) s) = Inl symbolAborted"
  by (simp add: statuses_updateResult Let_def)

text \<open>The amended C8 at the mounted task 1.\<close>

theorem tick_resolves_with_itself_witness:
  "statuses (mount 1) 1 = Some Running
   \<and> tick (TickFn 0 1) (mount 1) = Inr (TickFn 0 1)
   \<and> tick (TickFn 0 1) (abort (AbortFn 0 1) (mount 1)) = Inl symbolAborted"
  using tick_resolves_with_itself [of "mount 1" 1 0 0]
  by (simp add: mount_simps)

subsection \<open>C9: a stale abort closure\<close>

text \<open>C9, as stated: once the generation of an abort closure has been superseded, its tracker
  entry deleted by a later submission, calling the stale closure changes neither the
  result nor the tracker nor any signal. The closure acts on the entry of the function it
  captured, whichever generation wrote it. Task 1 is mounted, task 2 is submitted and
  deletes the entry of task 1, then the function of task 1 is submitted again and is
  running as the third submission, with no controller aborted. The abort closure of the
  first submission now finds a running entry: the result becomes aborted, the entry
  becomes aborted, and the controller that is aborted is that of the first submission,
  not that of the third.\<close>

theorem stale_abort_acts_counterexample:
  "statuses (run [Submit 2] (mount 1)) 1 = None
   \<and> result (run [Submit 2, Submit 1] (mount 1)) = R_running (AbortFn 2 1)
   \<and> aborted_signals (run [Submit 2, Submit 1] (mount 1)) = {}
   \<and> result (run [Submit 2, Submit 1, CallAbort (AbortFn 0 1)] (mount 1)) = R_aborted
   \<and> statuses (run [Submit 2, Submit 1, CallAbort (AbortFn 0 1)] (mount 1)) 1 = Some Aborted
   \<and> aborted_signals (run [Submit 2, Submit 1, CallAbort (AbortFn 0 1)] (mount 1)) = {0}"
  by (simp add: mount_def initial_def submission_def start_task_def before_start_def
      updateResult_def setResult_def Let_def)

text \<open>C9, amended: the abort closure of a generation acts on the tracker entry of the function
  it captured. Once a later submission has superseded that generation, the entry is
  deleted, and from then on, as long as that same function is not submitted again,
  calling the stale closure returns the state as it was: result, tracker and signals
  unchanged, whatever else has happened in between.\<close>

theorem stale_abort_is_noop:
  "oldEffectRef s = Some t \<Longrightarrow> \<forall>ev\<in>set evs. ev \<noteq> Submit t \<Longrightarrow>
     statuses (submission t' s) t = None
     \<and> abort (AbortFn n t) (run evs (submission t' s)) = run evs (submission t' s)"
proof -
  assume old: "oldEffectRef s = Some t"
    and evs: "\<forall>ev\<in>set evs. ev \<noteq> Submit t"
  from old have absent: "statuses (submission t' s) t = None"
    by (simp add: statuses_submission)
  then have "statuses (submission t' s) t \<noteq> Some Running"
    by simp
  with evs have "statuses (run evs (submission t' s)) t \<noteq> Some Running"
    by (rule not_running_run[rotated -1])
  with absent show ?thesis by simp
qed

text \<open>The amended C9 at task 1 superseded by task 2, with a late fulfillment of task 1 and
  an abort of task 2 in between.\<close>

theorem stale_abort_is_noop_witness:
  "oldEffectRef (mount 1) = Some 1
   \<and> statuses (submission 2 (mount 1)) 1 = None
   \<and> abort (AbortFn 0 1) (run [Fulfill 1 3, CallAbort (AbortFn 1 2)] (submission 2 (mount 1)))
       = run [Fulfill 1 3, CallAbort (AbortFn 1 2)] (submission 2 (mount 1))"
  using stale_abort_is_noop [of "mount 1" 1 "[Fulfill 1 3, CallAbort (AbortFn 1 2)]" 2 0]
  by (simp add: mount_simps)

subsection \<open>C10: submitting the same function again\<close>




end
